theory Spec2Isabelle
  imports Complex_Main "HOL-Library.Multiset"
begin

section \<open>Data model\<close>

text \<open>
  The repository works on pandas data frames. A frame is modelled as the list of its rows,
  in row order, and a row as a record of the columns the code reads or writes. Python
  floats are idealised as real numbers; a float that may be NaN (an absent
  \<open>stance_value\<close>, the \<open>nan\<close> that the alternating reranker starts from) is a
  \<open>real option\<close> with \<open>None\<close> for NaN, so that every comparison with NaN is false, as in
  Python. An absent \<open>stance_label\<close> is \<open>None\<close> as well.
\<close>

record 'g qrel =
  qrel_query_id :: string
  qrel_doc_id :: string
  qrel_group :: 'g

record 'g scored_document =
  query_id :: string
  doc_id :: string
  score :: real
  rank :: int
  stance_value :: "real option"
  stance_label :: "string option"
  group :: 'g

text \<open>
  \<open>fairness.py\<close>: the two enumerations, and the values that the cached properties
  \<open>_protected_group_param\<close> and \<open>_tie_breaking_param\<close> can take.
\<close>

datatype protected_group_strategy = MINORITY | MAJORITY

datatype tie_breaking_strategy = RANDOM | GROUP_ASCENDING | GROUP_DESCENDING

datatype 'g protected_group_param = Strategy protected_group_strategy | Group 'g

datatype 'g tie_breaking_param =
    NoTieBreaking
  | TieStrategy tie_breaking_strategy
  | Preference "'g list"

text \<open>
  Errors are values. Every \<open>raise ValueError(...)\<close> of the source keeps the parts that
  its message is formatted from: \<open>Tie strategy tie_groups count\<close> stands for
  "Could not select protected group by (strategy) because of a tie. Groups (tie_groups)
  all occur (count) time(s).", \<open>PreferenceNotApplicable\<close> for "Tie breaking preference
  ... not applicable to resolve tie: ...", and \<open>MathDomain\<close> for the "math domain error"
  of \<open>math.log\<close>.
\<close>

datatype 'g value_error =
    Tie protected_group_strategy "'g list" int
  | PreferenceNotApplicable "'g list" "'g list"
  | MathDomain

datatype 'g py_error =
    ValueError "'g value_error"
  | TypeError
  | IndexError
  | ZeroDivisionError
  | AssertionError

definition first :: "'a list \<Rightarrow> 'g py_error + 'a" where
  \<comment> \<open>\<open>xs[0]\<close>\<close>
  "first xs = (case xs of [] \<Rightarrow> Inl IndexError | x # _ \<Rightarrow> Inr x)"

section \<open>Group counts (\<open>FairnessMeasure._group_counts\<close>)\<close>


text \<open>
  The source wraps the dictionary in \<open>defaultdict(lambda: 0, counts)\<close>. The file uses the
  name \<open>defaultdict\<close> without importing it; it is read as \<open>collections.defaultdict\<close> of
  the standard library. So \<open>group_counts[g]\<close> is the stored count, and 0 for a group that
  is not a key.
\<close>

definition counts_get :: "('g \<times> int) list \<Rightarrow> 'g \<Rightarrow> int" where
  "counts_get group_counts g = (case map_of group_counts g of None \<Rightarrow> 0 | Some c \<Rightarrow> c)"

section \<open>Protected group selection (\<open>FairnessMeasure._protected_group\<close>)\<close>

text \<open>
  \<open>sorted\<close> is stable, also with \<open>reverse=True\<close>; \<open>sort_key\<close> is a stable insertion sort,
  and sorting by the negated count is the stable descending sort. \<open>random.choice\<close> is
  modelled by an extra argument \<open>choice\<close>, the number it draws. The test
  \<open>hasattr(g, "__lt__")\<close> holds for every Python object, so that branch never raises;
  the labels are of a linearly ordered type here.
\<close>

definition FairnessMeasure_protected_group ::
  "('g::linorder) protected_group_param \<Rightarrow> 'g tie_breaking_param \<Rightarrow> nat \<Rightarrow>
     ('g \<times> int) list \<Rightarrow> 'g py_error + 'g" where
  "FairnessMeasure_protected_group protected_group_param tie_breaking choice group_counts =
     (case protected_group_param of
        Group g \<Rightarrow> Inr g
      | Strategy strategy \<Rightarrow>
          (let groups =
                 (case strategy of
                    MINORITY \<Rightarrow> sort_key snd group_counts
                  | MAJORITY \<Rightarrow> sort_key (\<lambda>item. - snd item) group_counts)
           in if length groups > 1 \<and> snd (groups ! 0) = snd (groups ! 1) then
                (let count = snd (groups ! 0);
                     tie_groups = map fst (filter (\<lambda>group. snd group = count) groups)
                 in case tie_breaking of
                      NoTieBreaking \<Rightarrow> Inl (ValueError (Tie strategy tie_groups count))
                    | TieStrategy RANDOM \<Rightarrow>
                        Inr (tie_groups ! (choice mod length tie_groups))
                    | TieStrategy GROUP_ASCENDING \<Rightarrow> first (sort tie_groups)
                    | TieStrategy GROUP_DESCENDING \<Rightarrow> first (rev (sort tie_groups))
                    | Preference preference \<Rightarrow>
                        (case filter (\<lambda>group. group \<in> set tie_groups) preference of
                           [] \<Rightarrow> Inl (ValueError (PreferenceNotApplicable preference tie_groups))
                         | g # _ \<Rightarrow> Inr g))
              else (case groups of [] \<Rightarrow> Inl IndexError | item # _ \<Rightarrow> Inr (fst item))))"

section \<open>Normalized discounted difference (\<open>_NormalizedDiscountedDifference.fairness\<close>)\<close>

text \<open>
  One pass of the loop body for the rank \<open>i\<close>. \<open>temp_ranking\<close> keeps the rows whose rank
  is in \<open>range(1, i + 1)\<close>; \<open>S_Plus_in_i\<close> is the number of its rows of the protected
  group. The expression is evaluated from the left: \<open>log(i + 1, 2)\<close> raises the math
  domain error for \<open>i + 1 \<le> 0\<close> and is \<open>0.0\<close> for \<open>i + 1 = 1\<close>, where \<open>1 / 0.0\<close> raises
  \<open>ZeroDivisionError\<close>; \<open>S_plus / N\<close> raises it for \<open>N = 0\<close>. The source divides
  \<open>S_Plus_in_i\<close> by \<open>i + 1\<close>.
\<close>

definition intermediate_metric ::
  "'g scored_document list \<Rightarrow> ('g \<times> int) list \<Rightarrow> 'g \<Rightarrow> int \<Rightarrow> int \<Rightarrow> 'g py_error + real" where
  "intermediate_metric ranking group_counts protected_group N i =
     (let temp_ranking = filter (\<lambda>d. 1 \<le> rank d \<and> rank d < i + 1) ranking;
          S_Plus_in_i = int (length (filter (\<lambda>d. group d = protected_group) temp_ranking));
          S_plus = counts_get group_counts protected_group
      in if i + 1 \<le> 0 then Inl (ValueError MathDomain)
         else if i + 1 = 1 then Inl ZeroDivisionError
         else if N = 0 then Inl ZeroDivisionError
         else Inr ((1 / log 2 (real_of_int (i + 1))) *
                   \<bar>\<bar>real_of_int S_Plus_in_i / real_of_int (i + 1)\<bar>
                     - \<bar>real_of_int S_plus / real_of_int N\<bar>\<bar>))"

text \<open>The loop \<open>for i in ranking["rank"]\<close>, appending to \<open>metrics\<close>; an error ends it.\<close>

fun metrics_loop :: "(int \<Rightarrow> 'e + real) \<Rightarrow> int list \<Rightarrow> 'e + real list" where
  "metrics_loop body [] = Inr []"
| "metrics_loop body (i # ranks) =
     (case body i of
        Inl e \<Rightarrow> Inl e
      | Inr intermediate \<Rightarrow>
          (case metrics_loop body ranks of
             Inl e \<Rightarrow> Inl e
           | Inr metrics \<Rightarrow> Inr (intermediate # metrics)))"

text \<open>
  \<open>if 0 in ranking["rank"].values: ranking["rank"] += 1\<close>, on the ranking of one query.
\<close>

definition normalize_ranks :: "'g scored_document list \<Rightarrow> 'g scored_document list" where
  "normalize_ranks ranking =
     (if 0 \<in> set (map rank ranking)
      then map (\<lambda>d. d\<lparr>rank := rank d + 1\<rparr>) ranking
      else ranking)"

definition rND_fairness ::
  "'g scored_document list \<Rightarrow> ('g \<times> int) list \<Rightarrow> 'g \<Rightarrow> 'g py_error + real" where
  "rND_fairness ranking group_counts protected_group =
     (let N = sum_list (map snd group_counts);
          ranking = normalize_ranks ranking
      in case metrics_loop (intermediate_metric ranking group_counts protected_group N)
                (map rank ranking) of
           Inl e \<Rightarrow> Inl e
         | Inr metrics \<Rightarrow> Inr (sum_list metrics))"

text \<open>
  The formula as the specification words it, for comparison: over the distinct rank
  positions \<open>i\<close> of the ranking (1-based, ascending), the discount \<open>1 / log2 (i + 1)\<close> times the distance
  between the share \<open>S+_in_i / i\<close> of the protected group among the documents of rank at
  most \<open>i\<close> and its share \<open>S+ / N\<close> of the judged population.
\<close>

definition S_plus_in :: "'g scored_document list \<Rightarrow> 'g \<Rightarrow> int \<Rightarrow> int" where
  "S_plus_in ranking protected_group i =
     int (length (filter (\<lambda>d. rank d \<le> i \<and> group d = protected_group) ranking))"

definition rND_spec :: "'g scored_document list \<Rightarrow> ('g \<times> int) list \<Rightarrow> 'g \<Rightarrow> real" where
  "rND_spec ranking group_counts protected_group =
     (let N = sum_list (map snd group_counts);
          S_plus = counts_get group_counts protected_group
      in sum_list (map (\<lambda>i. (1 / log 2 (real_of_int (i + 1))) *
                     \<bar>real_of_int (S_plus_in ranking protected_group i) / real_of_int i
                       - real_of_int S_plus / real_of_int N\<bar>)
                   (sort (remdups (map rank ranking)))))"

definition prefixes_match :: "'g scored_document list \<Rightarrow> ('g \<times> int) list \<Rightarrow> 'g \<Rightarrow> bool" where
  "prefixes_match ranking group_counts protected_group =
     list_all (\<lambda>i. real_of_int (S_plus_in ranking protected_group i) / real_of_int i
                    = real_of_int (counts_get group_counts protected_group)
                      / real_of_int (sum_list (map snd group_counts)))
       (sort (remdups (map rank ranking)))"

section \<open>Stance comparisons and the synthetic scores\<close>

text \<open>
  The four comparisons of a stance value with 0 that the rerankers make. Each is false
  for NaN.
\<close>

definition gt0 :: "real option \<Rightarrow> bool" where
  "gt0 v = (case v of None \<Rightarrow> False | Some x \<Rightarrow> 0 < x)"

definition lt0 :: "real option \<Rightarrow> bool" where
  "lt0 v = (case v of None \<Rightarrow> False | Some x \<Rightarrow> x < 0)"

definition le0 :: "real option \<Rightarrow> bool" where
  "le0 v = (case v of None \<Rightarrow> False | Some x \<Rightarrow> x \<le> 0)"

definition ge0 :: "real option \<Rightarrow> bool" where
  "ge0 v = (case v of None \<Rightarrow> False | Some x \<Rightarrow> 0 \<le> x)"

text \<open>\<open>arange(n, 0, -1)\<close> is \<open>n, n - 1, ..., 1\<close>; \<open>ranking["score"] = arange(len(ranking), 0, -1)\<close>.\<close>

definition arange_down :: "nat \<Rightarrow> real list" where
  "arange_down n = map (\<lambda>j. real (n - j)) [0..<n]"

definition reset_score :: "'g scored_document list \<Rightarrow> 'g scored_document list" where
  "reset_score ranking =
     map (\<lambda>(d, s). d\<lparr>score := s\<rparr>) (zip ranking (arange_down (length ranking)))"

section \<open>Alternating stance (\<open>AlternatingStanceReranker._transform_query\<close>)\<close>

text \<open>
  The \<open>if\<close>/\<open>elif\<close>/\<open>else\<close> that computes \<open>candidates\<close> from \<open>last_stance\<close> and the
  remaining ranking.
\<close>

definition candidates_of ::
  "real option \<Rightarrow> 'g scored_document list \<Rightarrow> 'g scored_document list" where
  "candidates_of last_stance ranking =
     (if gt0 last_stance then filter (\<lambda>d. le0 (stance_value d)) ranking
      else if lt0 last_stance then filter (\<lambda>d. ge0 (stance_value d)) ranking
      else ranking)"

lemma candidates_of_subset: "set (candidates_of last_stance ranking) \<subseteq> set ranking"
  by (auto simp: candidates_of_def)

lemma candidates_of_empty_directed:
  assumes "ranking \<noteq> []" "candidates_of last_stance ranking = []"
  shows "gt0 last_stance \<or> lt0 last_stance"
  using assms by (auto simp: candidates_of_def split: if_splits)

text \<open>
  The \<open>while len(ranking) > 0\<close> loop, with its three variables. When there is no
  candidate, \<open>last_stance\<close> becomes NaN and the loop continues with the same ranking;
  otherwise the first candidate is appended to \<open>new_rows\<close> and its row is dropped from
  the ranking. The index labels of the frame are taken to be distinct, so \<open>drop\<close> removes
  that one row; the first row equal to the document is the first candidate.
\<close>

function alternating_loop ::
  "'g scored_document list \<Rightarrow> real option \<Rightarrow> 'g scored_document list \<Rightarrow>
     'g scored_document list" where
  "alternating_loop ranking last_stance new_rows =
     (if \<not> length ranking > 0 then new_rows
      else
        (case candidates_of last_stance ranking of
           [] \<Rightarrow> alternating_loop ranking None new_rows
         | document # _ \<Rightarrow>
             alternating_loop (remove1 document ranking) (stance_value document)
               (new_rows @ [document])))"
  by pat_completeness auto
termination
proof (relation "measure (\<lambda>(ranking, last_stance, new_rows).
          2 * length ranking + (if gt0 last_stance \<or> lt0 last_stance then 1 else 0))")
  show "wf (measure (\<lambda>(ranking :: 'g scored_document list, last_stance,
                       new_rows :: 'g scored_document list).
          2 * length ranking + (if gt0 last_stance \<or> lt0 last_stance then 1 else 0)))"
    by simp
next
  fix ranking :: "'g scored_document list" and last_stance and new_rows :: "'g scored_document list"
  assume "\<not> \<not> 0 < length ranking" and "candidates_of last_stance ranking = []"
  then have "gt0 last_stance \<or> lt0 last_stance"
    using candidates_of_empty_directed [of ranking last_stance] by auto
  then show "((ranking, None, new_rows), ranking, last_stance, new_rows)
      \<in> measure (\<lambda>(ranking, last_stance, new_rows).
          2 * length ranking + (if gt0 last_stance \<or> lt0 last_stance then 1 else 0))"
    by (simp add: gt0_def lt0_def)
next
  fix ranking :: "'g scored_document list" and last_stance new_rows document rest
  assume "\<not> \<not> 0 < length ranking"
    and d: "candidates_of last_stance ranking = document # rest"
  then have "document \<in> set ranking"
    using candidates_of_subset [of last_stance ranking] by auto
  then have "length (remove1 document ranking) < length ranking"
    using length_pos_if_in_set [of document ranking] by (simp add: length_remove1)
  then show "((remove1 document ranking, stance_value document, new_rows @ [document]),
        ranking, last_stance, new_rows)
      \<in> measure (\<lambda>(ranking, last_stance, new_rows).
          2 * length ranking + (if gt0 last_stance \<or> lt0 last_stance then 1 else 0))"
    by simp
qed

declare alternating_loop.simps [simp del]

definition AlternatingStanceReranker_transform_query ::
  "'g scored_document list \<Rightarrow> 'g scored_document list" where
  "AlternatingStanceReranker_transform_query ranking =
     reset_score (alternating_loop ranking None [])"

text \<open>
  The alternation property of a sequence of stance values that follows \<open>last_stance\<close>:
  a value of the same strict sign as its predecessor occurs only where neither it nor
  any later value is of the opposite sign or zero.
\<close>

fun alternates :: "real option \<Rightarrow> real option list \<Rightarrow> bool" where
  "alternates last_stance [] = True"
| "alternates last_stance (v # vs) =
     ((gt0 last_stance \<and> gt0 v \<longrightarrow> (\<forall>c\<in>set (v # vs). \<not> le0 c))
      \<and> (lt0 last_stance \<and> lt0 v \<longrightarrow> (\<forall>c\<in>set (v # vs). \<not> ge0 c))
      \<and> alternates v vs)"

section \<open>Balanced top-k stance (\<open>BalancedStanceReranker._transform_query\<close>)\<close>

text \<open>
  \<open>xs.iloc[:j]\<close>: the first \<open>j\<close> rows, and all but the last \<open>-j\<close> rows for a negative \<open>j\<close>
  (the source takes \<open>ranking.iloc[:k - 1]\<close>, also for \<open>k = 0\<close>).
\<close>

definition iloc_until :: "int \<Rightarrow> 'a list \<Rightarrow> 'a list" where
  "iloc_until j xs =
     (if j < 0 then take (nat (int (length xs) + j)) xs else take (nat j) xs)"

text \<open>\<open>count_pro_a\<close> and \<open>count_pro_b\<close>, the two local functions, on \<open>ranking.iloc[:k]\<close>.\<close>

definition count_pro_a :: "nat \<Rightarrow> 'g scored_document list \<Rightarrow> int" where
  "count_pro_a k ranking =
     int (length (filter (\<lambda>d. gt0 (stance_value d)) (take k ranking)))"

definition count_pro_b :: "nat \<Rightarrow> 'g scored_document list \<Rightarrow> int" where
  "count_pro_b k ranking =
     int (length (filter (\<lambda>d. lt0 (stance_value d)) (take k ranking)))"

text \<open>
  The \<open>concat\<close> of the four label slices, on a frame whose index is \<open>0, 1, ...\<close>:
  \<open>loc[:x - 1]\<close>, \<open>loc[x + 1:y]\<close>, \<open>loc[x:x]\<close> and \<open>loc[y + 1:]\<close>; label slices include both
  ends. The row at \<open>x\<close> is moved behind the row at \<open>y\<close>.
\<close>

definition move_behind :: "nat \<Rightarrow> nat \<Rightarrow> 'a list \<Rightarrow> 'a list" where
  "move_behind x y ranking =
     take x ranking @ take (y - x) (drop (x + 1) ranking)
       @ take 1 (drop x ranking) @ drop (y + 1) ranking"

text \<open>
  The body of the \<open>while\<close> loop: \<open>None\<close> is the early \<open>return ranking\<close>, \<open>Some\<close> the ranking
  after the swap. The candidates are kept as the lists of their index labels.
\<close>

definition balance_step ::
  "nat \<Rightarrow> 'g scored_document list \<Rightarrow> 'g scored_document list option" where
  "balance_step k ranking =
     (let head = iloc_until (int k - 1) ranking in
      if count_pro_a k ranking - count_pro_b k ranking > 0 then
        (let candidates_a =
               filter (\<lambda>i. gt0 (stance_value (ranking ! i))) [0..<length head];
             candidates_b =
               filter (\<lambda>i. lt0 (stance_value (ranking ! i))) [k..<length ranking]
         in if length candidates_a = 0 \<or> length candidates_b = 0 then None
            else (let index_a = last candidates_a;
                      index_b = hd candidates_b
                  in Some (move_behind index_a index_b ranking)))
      else
        (let candidates_b =
               filter (\<lambda>i. lt0 (stance_value (ranking ! i))) [0..<length head];
             candidates_a =
               filter (\<lambda>i. gt0 (stance_value (ranking ! i))) [k..<length ranking]
         in if length candidates_a = 0 \<or> length candidates_b = 0 then None
            else (let index_b = last candidates_b;
                      index_a = hd candidates_a
                  in Some (move_behind index_b index_a ranking))))"

text \<open>The quantity that the loop condition compares with 1.\<close>

definition imbalance :: "nat \<Rightarrow> 'g scored_document list \<Rightarrow> int" where
  "imbalance k ranking = \<bar>count_pro_a k ranking - count_pro_b k ranking\<bar>"

subsection \<open>Termination of the loop\<close>

text \<open>
  A swap moves a document of the over-represented polarity behind a later document of
  the under-represented one, so the sum of the positions of the under-represented
  documents decreases; and the difference of the two counts never changes its sign.
\<close>

fun index_sum :: "nat \<Rightarrow> ('a \<Rightarrow> bool) \<Rightarrow> 'a list \<Rightarrow> nat" where
  "index_sum n P [] = 0"
| "index_sum n P (x # xs) = (if P x then n else 0) + index_sum (Suc n) P xs"

lemma index_sum_append:
  "index_sum n P (xs @ ys) = index_sum n P xs + index_sum (n + length xs) P ys"
  by (induction xs arbitrary: n) auto

lemma index_sum_Suc:
  "index_sum (Suc n) P xs = index_sum n P xs + length (filter P xs)"
  by (induction xs arbitrary: n) auto

lemma move_behind_split:
  assumes "x < y" "y < length r"
  shows "r = take x r @ [r ! x] @ take (y - x) (drop (x + 1) r) @ drop (y + 1) r"
    and "move_behind x y r
           = take x r @ take (y - x) (drop (x + 1) r) @ [r ! x] @ drop (y + 1) r"
proof -
  from assms have x: "x < length r" by simp
  have a: "drop x r = r ! x # drop (x + 1) r"
    using x by (simp add: Cons_nth_drop_Suc)
  have b: "drop (x + 1) r = take (y - x) (drop (x + 1) r) @ drop (y + 1) r"
  proof -
    have "drop (y - x) (drop (x + 1) r) = drop (y + 1) r"
      using assms by simp
    then show ?thesis by (metis append_take_drop_id)
  qed
  have "r = take x r @ drop x r" by simp
  also have "\<dots> = take x r @ [r ! x] @ drop (x + 1) r" using a by simp
  finally show "r = take x r @ [r ! x] @ take (y - x) (drop (x + 1) r) @ drop (y + 1) r"
    using b by simp
  show "move_behind x y r
           = take x r @ take (y - x) (drop (x + 1) r) @ [r ! x] @ drop (y + 1) r"
    using a by (simp add: move_behind_def)
qed

lemma mset_move_behind:
  assumes "x < y" "y < length r"
  shows "mset (move_behind x y r) = mset r"
proof -
  have "mset r = mset (take x r @ [r ! x] @ take (y - x) (drop (x + 1) r) @ drop (y + 1) r)"
    using move_behind_split(1) [OF assms] by simp
  then show ?thesis
    by (simp add: move_behind_split(2) [OF assms])
qed

lemma length_move_behind:
  assumes "x < y" "y < length r"
  shows "length (move_behind x y r) = length r"
  using mset_move_behind [OF assms] by (rule mset_eq_length)

lemma count_take_move_behind:
  assumes "x + 1 < k" "k \<le> y" "y < length r"
  shows "length (filter P (take k (move_behind x y r))) + (if P (r ! x) then 1 else 0)
           = length (filter P (take k r)) + (if P (r ! k) then 1 else 0)"
proof -
  from assms have xy: "x < y" by simp
  let ?M = "drop (x + 1) r"
  have lenM: "k - x - 1 < length ?M" using assms by simp
  have t1: "take k r = take x r @ [r ! x] @ take (k - x - 1) ?M"
  proof -
    have "take k r = take x r @ take (k - x) (drop x r)"
      using assms by (metis add_diff_inverse_nat less_imp_le_nat not_less take_add add_lessD1 le_add_diff_inverse)
    moreover have "drop x r = r ! x # ?M"
      using assms by (simp add: Cons_nth_drop_Suc)
    moreover have "k - x = Suc (k - x - 1)" using assms by simp
    ultimately show ?thesis by (metis append_Cons append_Nil take_Suc_Cons)
  qed
  have t2: "take k (move_behind x y r) = take x r @ take (k - x - 1) ?M @ [r ! k]"
  proof -
    have "take k (move_behind x y r) = take x r @ take (k - x) (take (y - x) ?M)"
      using assms by (simp add: move_behind_split(2) [OF xy assms(3)])
    also have "take (k - x) (take (y - x) ?M) = take (k - x) ?M"
      using assms by (simp add: min_def)
    also have "take (k - x) ?M = take (Suc (k - x - 1)) ?M"
    proof -
      have "k - x = Suc (k - x - 1)" using assms by simp
      then show ?thesis by metis
    qed
    also have "\<dots> = take (k - x - 1) ?M @ [?M ! (k - x - 1)]"
      using lenM by (rule take_Suc_conv_app_nth)
    also have "?M ! (k - x - 1) = r ! k" using assms by simp
    finally show ?thesis .
  qed
  show ?thesis by (simp add: t1 t2)
qed

lemma index_sum_move_behind:
  assumes "x < y" "y < length r" "\<not> Q (r ! x)" "Q (r ! y)"
  shows "index_sum 0 Q (move_behind x y r) < index_sum 0 Q r"
proof -
  let ?X = "take x r" and ?M = "take (y - x) (drop (x + 1) r)" and ?Y = "drop (y + 1) r"
  have lx: "length ?X = x" using assms by simp
  have lm: "length ?M = y - x" using assms by simp
  have "?M ! (y - x - 1) = r ! y" using assms by simp
  moreover have "y - x - 1 < length ?M" using assms lm by simp
  ultimately have "r ! y \<in> set ?M" by (metis nth_mem)
  with assms(4) have pos: "0 < length (filter Q ?M)"
    by (simp add: filter_empty_conv) blast
  have r: "index_sum 0 Q r
      = index_sum 0 Q ?X + index_sum (Suc x) Q ?M + index_sum (Suc x + (y - x)) Q ?Y"
    using assms(3) lx lm
    by (subst move_behind_split(1) [OF assms(1,2)]) (simp add: index_sum_append)
  have r': "index_sum 0 Q (move_behind x y r)
      = index_sum 0 Q ?X + index_sum x Q ?M + index_sum (Suc (x + (y - x))) Q ?Y"
    using assms(3) lx lm
    by (simp add: move_behind_split(2) [OF assms(1,2)] index_sum_append)
  from r r' pos show ?thesis by (simp add: index_sum_Suc [of x])
qed


lemma hd_filter_upt:
  assumes "filter P [k..<n] \<noteq> []"
  shows "k \<le> hd (filter P [k..<n])" "hd (filter P [k..<n]) < n" "P (hd (filter P [k..<n]))"
    and "P k \<longleftrightarrow> hd (filter P [k..<n]) = k"
proof -
  from assms obtain y ys where f: "filter P [k..<n] = y # ys" by (cases "filter P [k..<n]") auto
  then obtain us vs where u: "[k..<n] = us @ y # vs" "\<forall>u\<in>set us. \<not> P u" "P y"
    by (auto simp: filter_eq_Cons_iff)
  from u(1) have mem: "y \<in> set [k..<n]" by simp
  then have ky: "k \<le> y" "y < n" by auto
  have "P k \<longleftrightarrow> y = k"
  proof
    assume pk: "P k"
    show "y = k"
    proof (cases us)
      case Nil
      with u(1) ky show ?thesis by (simp add: upt_eq_Cons_conv)
    next
      case (Cons a as)
      with u(1) ky have "a = k" by (simp add: upt_eq_Cons_conv)
      with Cons u(2) pk show ?thesis by simp
    qed
  next
    assume "y = k" with u(3) show "P k" by simp
  qed
  with f ky u(3) show "k \<le> hd (filter P [k..<n])" "hd (filter P [k..<n]) < n"
    "P (hd (filter P [k..<n]))" "P k \<longleftrightarrow> hd (filter P [k..<n]) = k"
    by simp_all
qed

lemma last_filter_upt:
  assumes "filter P [0..<n] \<noteq> []"
  shows "last (filter P [0..<n]) < n" "P (last (filter P [0..<n]))"
proof -
  from assms have "last (filter P [0..<n]) \<in> set (filter P [0..<n])" by (rule last_in_set)
  then show "last (filter P [0..<n]) < n" "P (last (filter P [0..<n]))" by auto
qed

lemma count_pro_pos_k:
  assumes "0 < count_pro_a k r \<or> 0 < count_pro_b k r"
  shows "0 < k"
  using assms by (cases k) (auto simp: count_pro_a_def count_pro_b_def)

lemma length_head:
  assumes "0 < k"
  shows "length (iloc_until (int k - 1) r) = min (k - 1) (length r)"
  using assms by (simp add: iloc_until_def nat_diff_distrib)

lemma balance_step_pro_a:
  assumes "0 < count_pro_a k r - count_pro_b k r" "balance_step k r = Some r'"
  obtains x y where "r' = move_behind x y r" "x + 1 < k" "gt0 (stance_value (r ! x))"
    "k \<le> y" "y < length r" "lt0 (stance_value (r ! y))"
    "lt0 (stance_value (r ! k)) \<longleftrightarrow> y = k"
proof -
  let ?ca = "filter (\<lambda>i. gt0 (stance_value (r ! i))) [0..<length (iloc_until (int k - 1) r)]"
  let ?cb = "filter (\<lambda>i. lt0 (stance_value (r ! i))) [k..<length r]"
  from assms have ne: "?ca \<noteq> []" "?cb \<noteq> []" and r': "r' = move_behind (last ?ca) (hd ?cb) r"
    by (auto simp: balance_step_def Let_def split: if_splits)
  have "0 \<le> count_pro_b k r" by (simp add: count_pro_b_def)
  with assms(1) have "0 < count_pro_a k r" by linarith
  then have k: "0 < k" using count_pro_pos_k by blast
  from last_filter_upt [OF ne(1)] length_head [OF k, of r]
  have x: "last ?ca + 1 < k" "gt0 (stance_value (r ! last ?ca))" by auto
  from hd_filter_upt [OF ne(2)]
  have y: "k \<le> hd ?cb" "hd ?cb < length r" "lt0 (stance_value (r ! hd ?cb))"
    "lt0 (stance_value (r ! k)) \<longleftrightarrow> hd ?cb = k" by auto
  from that [OF r' x y] show thesis .
qed

lemma balance_step_pro_b:
  assumes "\<not> 0 < count_pro_a k r - count_pro_b k r" "0 < count_pro_b k r"
    "balance_step k r = Some r'"
  obtains x y where "r' = move_behind x y r" "x + 1 < k" "lt0 (stance_value (r ! x))"
    "k \<le> y" "y < length r" "gt0 (stance_value (r ! y))"
    "gt0 (stance_value (r ! k)) \<longleftrightarrow> y = k"
proof -
  let ?cb = "filter (\<lambda>i. lt0 (stance_value (r ! i))) [0..<length (iloc_until (int k - 1) r)]"
  let ?ca = "filter (\<lambda>i. gt0 (stance_value (r ! i))) [k..<length r]"
  from assms have ne: "?cb \<noteq> []" "?ca \<noteq> []" and r': "r' = move_behind (last ?cb) (hd ?ca) r"
    by (auto simp: balance_step_def Let_def split: if_splits)
  from assms(2) have k: "0 < k" using count_pro_pos_k by blast
  from last_filter_upt [OF ne(1)] length_head [OF k, of r]
  have x: "last ?cb + 1 < k" "lt0 (stance_value (r ! last ?cb))" by auto
  from hd_filter_upt [OF ne(2)]
  have y: "k \<le> hd ?ca" "hd ?ca < length r" "gt0 (stance_value (r ! hd ?ca))"
    "gt0 (stance_value (r ! k)) \<longleftrightarrow> hd ?ca = k" by auto
  from that [OF r' x y] show thesis .
qed

lemma gt0_not_lt0: "gt0 v \<Longrightarrow> \<not> lt0 v"
  by (simp add: gt0_def lt0_def split: option.splits)

lemma counts_after_swap:
  assumes "x + 1 < k" "k \<le> y" "y < length r"
  shows "count_pro_a k (move_behind x y r)
           = count_pro_a k r - (if gt0 (stance_value (r ! x)) then 1 else 0)
               + (if gt0 (stance_value (r ! k)) then 1 else 0)"
    and "count_pro_b k (move_behind x y r)
           = count_pro_b k r - (if lt0 (stance_value (r ! x)) then 1 else 0)
               + (if lt0 (stance_value (r ! k)) then 1 else 0)"
  using count_take_move_behind [OF assms, of "\<lambda>d. gt0 (stance_value d)"]
    count_take_move_behind [OF assms, of "\<lambda>d. lt0 (stance_value d)"]
  by (auto simp: count_pro_a_def count_pro_b_def split: if_splits)


lemma difference_after_swap_pro_a:
  assumes "0 < count_pro_a k r - count_pro_b k r" "balance_step k r = Some r'"
  shows "count_pro_a k r' - count_pro_b k r'
           = count_pro_a k r - count_pro_b k r - 1
               + (if gt0 (stance_value (r ! k)) then 1 else 0)
               - (if lt0 (stance_value (r ! k)) then 1 else 0)"
    and "index_sum 0 (\<lambda>d. lt0 (stance_value d)) r' < index_sum 0 (\<lambda>d. lt0 (stance_value d)) r"
    and "mset r' = mset r" and "k < length r"
proof -
  from assms obtain x y where s: "r' = move_behind x y r" "x + 1 < k"
    "gt0 (stance_value (r ! x))" "k \<le> y" "y < length r" "lt0 (stance_value (r ! y))"
    by (rule balance_step_pro_a)
  from s(3) have nx: "\<not> lt0 (stance_value (r ! x))" by (rule gt0_not_lt0)
  from s(2,4) have xy: "x < y" by simp
  show "count_pro_a k r' - count_pro_b k r'
           = count_pro_a k r - count_pro_b k r - 1
               + (if gt0 (stance_value (r ! k)) then 1 else 0)
               - (if lt0 (stance_value (r ! k)) then 1 else 0)"
    using counts_after_swap [OF s(2,4,5)] s(3) nx by (simp add: s(1))
  show "index_sum 0 (\<lambda>d. lt0 (stance_value d)) r' < index_sum 0 (\<lambda>d. lt0 (stance_value d)) r"
    unfolding s(1) using xy s(5) nx s(6) by (rule index_sum_move_behind)
  show "mset r' = mset r" unfolding s(1) using xy s(5) by (rule mset_move_behind)
  show "k < length r" using s(4,5) by simp
qed

lemma difference_after_swap_pro_b:
  assumes "count_pro_a k r - count_pro_b k r < 0" "balance_step k r = Some r'"
  shows "count_pro_a k r' - count_pro_b k r'
           = count_pro_a k r - count_pro_b k r + 1
               + (if gt0 (stance_value (r ! k)) then 1 else 0)
               - (if lt0 (stance_value (r ! k)) then 1 else 0)"
    and "index_sum 0 (\<lambda>d. gt0 (stance_value d)) r' < index_sum 0 (\<lambda>d. gt0 (stance_value d)) r"
    and "mset r' = mset r" and "k < length r"
proof -
  have "0 \<le> count_pro_a k r" by (simp add: count_pro_a_def)
  with assms(1) have b: "0 < count_pro_b k r" and n: "\<not> 0 < count_pro_a k r - count_pro_b k r"
    by linarith+
  from n b assms(2) obtain x y where s: "r' = move_behind x y r" "x + 1 < k"
    "lt0 (stance_value (r ! x))" "k \<le> y" "y < length r" "gt0 (stance_value (r ! y))"
    by (rule balance_step_pro_b)
  from s(3) have nx: "\<not> gt0 (stance_value (r ! x))" using gt0_not_lt0 by blast
  from s(2,4) have xy: "x < y" by simp
  show "count_pro_a k r' - count_pro_b k r'
           = count_pro_a k r - count_pro_b k r + 1
               + (if gt0 (stance_value (r ! k)) then 1 else 0)
               - (if lt0 (stance_value (r ! k)) then 1 else 0)"
    using counts_after_swap [OF s(2,4,5)] s(3) nx by (simp add: s(1))
  show "index_sum 0 (\<lambda>d. gt0 (stance_value d)) r' < index_sum 0 (\<lambda>d. gt0 (stance_value d)) r"
    unfolding s(1) using xy s(5) nx s(6) by (rule index_sum_move_behind)
  show "mset r' = mset r" unfolding s(1) using xy s(5) by (rule mset_move_behind)
  show "k < length r" using s(4,5) by simp
qed

definition balance_measure :: "nat \<Rightarrow> 'g scored_document list \<Rightarrow> nat" where
  "balance_measure k ranking =
     (if 1 < count_pro_a k ranking - count_pro_b k ranking
      then Suc (index_sum 0 (\<lambda>d. lt0 (stance_value d)) ranking)
      else if count_pro_a k ranking - count_pro_b k ranking < - 1
      then Suc (index_sum 0 (\<lambda>d. gt0 (stance_value d)) ranking)
      else 0)"

lemma balance_measure_decreases:
  assumes "1 < imbalance k r" "balance_step k r = Some r'"
  shows "balance_measure k r' < balance_measure k r"
proof (cases "0 < count_pro_a k r - count_pro_b k r")
  case True
  with assms(1) have d: "1 < count_pro_a k r - count_pro_b k r" by (simp add: imbalance_def)
  from difference_after_swap_pro_a(1,2) [OF True assms(2)] d show ?thesis
    by (auto simp: balance_measure_def split: if_splits)
next
  case False
  with assms(1) have d: "count_pro_a k r - count_pro_b k r < - 1" by (simp add: imbalance_def)
  then have "count_pro_a k r - count_pro_b k r < 0" by simp
  from difference_after_swap_pro_b(1,2) [OF this assms(2)] d show ?thesis
    by (auto simp: balance_measure_def split: if_splits)
qed

text \<open>
  The \<open>while\<close> loop. The early \<open>return ranking\<close> leaves the function at once, without the
  final rewriting of the scores; the regular exit rewrites them.
\<close>

function balance_loop :: "nat \<Rightarrow> 'g scored_document list \<Rightarrow> 'g scored_document list" where
  "balance_loop k ranking =
     (if \<bar>count_pro_a k ranking - count_pro_b k ranking\<bar> > 1 then
        (case balance_step k ranking of
           None \<Rightarrow> ranking
         | Some ranking' \<Rightarrow> balance_loop k ranking')
      else reset_score ranking)"
  by pat_completeness auto
termination
proof (relation "measure (\<lambda>(k, ranking). balance_measure k ranking)")
  show "wf (measure (\<lambda>(k, ranking :: 'g scored_document list). balance_measure k ranking))"
    by simp
next
  fix k and ranking ranking' :: "'g scored_document list"
  assume "1 < \<bar>count_pro_a k ranking - count_pro_b k ranking\<bar>"
    and "balance_step k ranking = Some ranking'"
  then have "balance_measure k ranking' < balance_measure k ranking"
    by (intro balance_measure_decreases) (simp_all add: imbalance_def)
  then show "((k, ranking'), k, ranking) \<in> measure (\<lambda>(k, ranking). balance_measure k ranking)"
    by simp
qed

declare balance_loop.simps [simp del]

text \<open>
  \<open>_transform_query\<close>: the assertion \<open>0 <= self.k\<close>, then \<open>k = min(self.k, len(ranking))\<close>
  and the loop.
\<close>

definition BalancedStanceReranker_transform_query ::
  "int \<Rightarrow> 'g scored_document list \<Rightarrow> 'g py_error + 'g scored_document list" where
  "BalancedStanceReranker_transform_query self_k ranking =
     (if \<not> 0 \<le> self_k then Inl AssertionError
      else (let k = min (nat self_k) (length ranking)
            in Inr (balance_loop k ranking)))"

text \<open>
  The polarity of which the top-k window holds fewer documents, and the one of which it
  holds more, as the loop body decides it (\<open>count_pro_a() - count_pro_b() > 0\<close>).
\<close>

definition under_represented ::
  "nat \<Rightarrow> 'g scored_document list \<Rightarrow> 'g scored_document \<Rightarrow> bool" where
  "under_represented k ranking d =
     (if 0 < count_pro_a k ranking - count_pro_b k ranking
      then lt0 (stance_value d) else gt0 (stance_value d))"

definition over_represented ::
  "nat \<Rightarrow> 'g scored_document list \<Rightarrow> 'g scored_document \<Rightarrow> bool" where
  "over_represented k ranking d =
     (if 0 < count_pro_a k ranking - count_pro_b k ranking
      then gt0 (stance_value d) else lt0 (stance_value d))"

section \<open>Stance labels\<close>

text \<open>
  \<open>ranking["stance_label"].fillna("NO", inplace=True)\<close>, and the label column after it.
\<close>

definition fillna_NO :: "'g scored_document list \<Rightarrow> 'g scored_document list" where
  "fillna_NO ranking =
     map (\<lambda>d. d\<lparr>stance_label :=
            Some (case stance_label d of None \<Rightarrow> ''NO'' | Some l \<Rightarrow> l)\<rparr>) ranking"

definition label_column :: "'g scored_document list \<Rightarrow> string list" where
  "label_column ranking =
     map (\<lambda>d. case stance_label d of None \<Rightarrow> ''NO'' | Some l \<Rightarrow> l) ranking"

section \<open>Score normalization (\<open>_normalize_scores\<close>)\<close>

text \<open>
  A float division in a pandas column does not raise: a zero divisor gives NaN or an
  infinity. \<open>None\<close> stands for such a result, which is no real number. The minimum and
  the maximum of an empty column are NaN; there is no row to divide then.
\<close>

definition float_div :: "real \<Rightarrow> real \<Rightarrow> real option" where
  "float_div x y = (if y = 0 then None else Some (x / y))"

definition column_min :: "real list \<Rightarrow> real" where
  "column_min xs = fold min xs (hd xs)"

definition column_max :: "real list \<Rightarrow> real" where
  "column_max xs = fold max xs (hd xs)"

text \<open>
  \<open>_normalize_scores\<close> begins with \<open>ranking = ranking.copy()\<close>, whatever \<open>inplace\<close> is, and
  copies once more when \<open>inplace\<close> is false: it never writes to the frame it was given,
  and returns the copy. The model returns the score column of the returned frame; its
  other columns are those of the argument.
\<close>

definition normalize_scores :: "'g scored_document list \<Rightarrow> bool \<Rightarrow> real option list" where
  "normalize_scores ranking inplace =
     (let min_score = column_min (map score ranking);
          max_score = column_max (map score ranking)
      in map (\<lambda>d. float_div (score d - min_score) (max_score - min_score)) ranking)"

section \<open>Inverse stance gain (\<open>InverseStanceGainReranker._rerank_query\<close>)\<close>



section \<open>Boost minority stance (\<open>BoostMinorityStanceReranker._rerank_query\<close>)\<close>

text \<open>
  \<open>ranking.groupby("stance_label").size().to_dict()\<close>; only looked up by key, so the
  order of the items is immaterial here.
\<close>

definition stance_counts_of :: "'g scored_document list \<Rightarrow> (string \<times> int) list" where
  "stance_counts_of ranking =
     map (\<lambda>l. (l, int (length (filter (\<lambda>l'. l' = l) (label_column ranking)))))
       (remdups (label_column ranking))"

text \<open>
  \<open>stance_counts.get(stance, default=0)\<close>: \<open>dict.get\<close> takes its arguments by position
  only, and the call with the keyword \<open>default\<close> raises \<open>TypeError\<close> ("get() takes no
  keyword arguments") for every dictionary and every key.
\<close>

definition dict_get_keyword_default ::
  "(string \<times> int) list \<Rightarrow> string \<Rightarrow> int \<Rightarrow> 'g py_error + int" where
  "dict_get_keyword_default d key default_value = Inl TypeError"

text \<open>
  \<open>sorted(xs, key=f)\<close> computes the key of every element first, in list order, and an
  exception of \<open>f\<close> leaves \<open>sorted\<close>; then it sorts stably by the keys.
\<close>

fun keyed :: "('a \<Rightarrow> 'e + int) \<Rightarrow> 'a list \<Rightarrow> 'e + (int \<times> 'a) list" where
  "keyed f [] = Inr []"
| "keyed f (x # xs) =
     (case f x of
        Inl e \<Rightarrow> Inl e
      | Inr k \<Rightarrow> (case keyed f xs of Inl e \<Rightarrow> Inl e | Inr kxs \<Rightarrow> Inr ((k, x) # kxs)))"

definition sorted_key :: "('a \<Rightarrow> 'e + int) \<Rightarrow> 'a list \<Rightarrow> 'e + 'a list" where
  "sorted_key f xs =
     (case keyed f xs of Inl e \<Rightarrow> Inl e | Inr kxs \<Rightarrow> Inr (map snd (sort_key fst kxs)))"

text \<open>
  \<open>ranking["score"].map(boost)\<close> with \<open>boost\<close> a set: \<open>Series.map\<close> takes a function, a
  mapping or a series, and calls anything else as a function on each value; a set is
  not callable, which is a \<open>TypeError\<close> at the first row.
\<close>

definition series_map_set :: "real list \<Rightarrow> real set \<Rightarrow> 'g py_error + real list" where
  "series_map_set column s = (case column of [] \<Rightarrow> Inr [] | _ # _ \<Rightarrow> Inl TypeError)"

text \<open>
  The method. \<open>sorted(...)[0]\<close> is one label, a string, and \<open>boost\<close> is the set built
  from the positions of its characters.
\<close>

definition BoostMinorityStanceReranker_rerank_query ::
  "real \<Rightarrow> 'g scored_document list \<Rightarrow> 'g py_error + 'g scored_document list" where
  "BoostMinorityStanceReranker_rerank_query self_boost ranking =
     (let ranking = fillna_NO ranking;
          stance_counts = stance_counts_of ranking
      in case sorted_key (\<lambda>stance. dict_get_keyword_default stance_counts stance 0)
                [''FIRST'', ''SECOND'', ''NEUTRAL'', ''NO''] of
           Inl e \<Rightarrow> Inl e
         | Inr sorted_labels \<Rightarrow>
             (case first sorted_labels of
                Inl e \<Rightarrow> Inl e
              | Inr sorted_stances \<Rightarrow>
                  (let boost = set (map (\<lambda>(i, stance). if i = 0 then self_boost else 1)
                                      (enumerate (0::nat) sorted_stances))
                   in case series_map_set (map score ranking) boost of
                        Inl e \<Rightarrow> Inl e
                      | Inr factors \<Rightarrow>
                          Inr (map (\<lambda>(d, f). d\<lparr>score := score d * f\<rparr>)
                                 (zip ranking factors)))))"

text \<open>
  What the specification asks of this reranker, for comparison: the label with the
  smallest number of occurrences among the four canonical labels (the first such label
  in the order FIRST, SECOND, NEUTRAL, NO, as a stable sort by the count gives it), and
  the scores of the documents of that label multiplied by the boost.
\<close>

definition minority_label_spec :: "'g scored_document list \<Rightarrow> string" where
  "minority_label_spec ranking =
     hd (sort_key (\<lambda>l. length (filter (\<lambda>l'. l' = l) (label_column ranking)))
           [''FIRST'', ''SECOND'', ''NEUTRAL'', ''NO''])"

definition boost_minority_spec ::
  "real \<Rightarrow> 'g scored_document list \<Rightarrow> 'g scored_document list" where
  "boost_minority_spec boost ranking =
     map (\<lambda>d. if stance_label d = Some (minority_label_spec ranking)
               then d\<lparr>score := score d * boost\<rparr> else d)
       (fillna_NO ranking)"

section \<open>Example inputs\<close>

text \<open>
  A row of a ranking for the fairness measure, and the example of the specification:
  judgments \<open>(Q1, d1, A)\<close>, \<open>(Q1, d2, A)\<close>, \<open>(Q1, d3, B)\<close>, hence the counts \<open>A: 2\<close> and
  \<open>B: 1\<close>, and the ranking \<open>d1, d2, d3\<close> at the ranks 1, 2, 3.
\<close>

definition ranked :: "string \<Rightarrow> int \<Rightarrow> string \<Rightarrow> string scored_document" where
  "ranked d r g =
     \<lparr>query_id = ''Q1'', doc_id = d, score = 0, rank = r,
      stance_value = None, stance_label = None, group = g\<rparr>"

definition example_ranking :: "string scored_document list" where
  "example_ranking = [ranked ''d1'' 1 ''A'', ranked ''d2'' 2 ''A'', ranked ''d3'' 3 ''B'']"

definition example_counts :: "(string \<times> int) list" where
  "example_counts = [(''A'', 2), (''B'', 1)]"

text \<open>A row of a ranking for the rerankers: document, score, stance value, stance label.\<close>

definition stanced ::
  "string \<Rightarrow> real \<Rightarrow> real option \<Rightarrow> string option \<Rightarrow> unit scored_document" where
  "stanced d s v l =
     \<lparr>query_id = ''Q1'', doc_id = d, score = s, rank = 0,
      stance_value = v, stance_label = l, group = ()\<rparr>"

text \<open>Documents that are pro A and pro B.\<close>

definition pro_a_doc :: "string \<Rightarrow> unit scored_document" where
  "pro_a_doc d = stanced d 0 (Some 1) None"

definition pro_b_doc :: "string \<Rightarrow> unit scored_document" where
  "pro_b_doc d = stanced d 0 (Some (- 1)) None"

text \<open>
  The example of the specification for the boost reranker: the labels FIRST, FIRST,
  SECOND and an absent label, which counts as NO.
\<close>

definition boost_example :: "unit scored_document list" where
  "boost_example =
     [stanced ''d1'' 4 None (Some ''FIRST''), stanced ''d2'' 3 None (Some ''FIRST''),
      stanced ''d3'' 2 None (Some ''SECOND''), stanced ''d4'' 1 None None]"


section \<open>Properties of the synthetic scores\<close>

lemma length_reset_score: "length (reset_score ranking) = length ranking"
  by (simp add: reset_score_def arange_down_def)

lemma nth_reset_score:
  assumes "j < length ranking"
  shows "reset_score ranking ! j = (ranking ! j)\<lparr>score := real (length ranking - j)\<rparr>"
  using assms by (simp add: reset_score_def arange_down_def)

lemma stance_value_reset_score:
  "map stance_value (reset_score ranking) = map stance_value ranking"
  by (rule nth_equalityI) (simp_all add: length_reset_score nth_reset_score)

lemma sorted_arange_down: "sorted_wrt (\<lambda>x y. y < x) (arange_down n)"
  by (simp add: arange_down_def sorted_wrt_map sorted_wrt_iff_nth_less)

section \<open>Properties of the normalized discounted difference\<close>

lemma log2_3_bounds: "19 / 12 < log 2 (3::real) \<and> log 2 (3::real) < 8 / 5"
proof -
  have a: "12 * log 2 (3::real) = log 2 (3 ^ 12)"
    using log_nat_power [where x = "3::real" and b = 2 and n = 12] by simp
  have b: "log 2 ((2::real) ^ 19) < log 2 (3 ^ 12)"
    by (subst log_less_cancel_iff) simp_all
  have c: "log 2 ((2::real) ^ 19) = 19"
    using log_nat_power [where x = "2::real" and b = 2 and n = 19] by simp
  have a': "5 * log 2 (3::real) = log 2 (3 ^ 5)"
    using log_nat_power [where x = "3::real" and b = 2 and n = 5] by simp
  have b': "log 2 ((3::real) ^ 5) < log 2 (2 ^ 8)"
    by (subst log_less_cancel_iff) simp_all
  have c': "log 2 ((2::real) ^ 8) = 8"
    using log_nat_power [where x = "2::real" and b = 2 and n = 8] by simp
  from a b c have "19 < 12 * log 2 (3::real)" by linarith
  moreover from a' b' c' have "5 * log 2 (3::real) < 8" by linarith
  ultimately show ?thesis by simp
qed

lemma log2_4: "log 2 (4::real) = 2"
  using log_nat_power [where x = "2::real" and b = 2 and n = 2] by simp

lemma inverse_log2_3_bounds:
  "5 / 24 < 1 / (3 * log 2 (3::real)) \<and> 1 / (3 * log 2 (3::real)) < 4 / 19"
proof -
  let ?l = "log 2 (3::real)"
  from log2_3_bounds have l: "19 / 12 < ?l" "?l < 8 / 5" by simp_all
  then have pos: "0 < 3 * ?l" by simp
  have "5 / 24 < 1 / (3 * ?l)"
    using l pos by (simp add: field_simps)
  moreover have "1 / (3 * ?l) < 4 / 19"
    using l pos by (simp add: field_simps)
  ultimately show ?thesis by simp
qed

text \<open>
  Claim C1, at the example of the specification. The source divides the number of
  protected documents among the ranks up to \<open>i\<close> by \<open>i + 1\<close>, not by \<open>i\<close>: at rank 3 the
  term is \<open>(1 / log2 4) * |1/4 - 1/3| = 1/24\<close>, not 0. The code returns
  \<open>3/8 + 1 / (3 * log2 3)\<close>, above 0.58; the formula of the specification gives
  \<open>1/3 + 1 / (3 * log2 3)\<close>, between 0.54 and 0.55 (the "approximately 0.543").
\<close>

theorem rND_example_code_value:
  "rND_fairness example_ranking example_counts ''B'' = Inr (3 / 8 + 1 / (3 * log 2 3))
   \<and> rND_spec example_ranking example_counts ''B'' = 1 / 3 + 1 / (3 * log 2 3)
   \<and> 58 / 100 < 3 / 8 + 1 / (3 * log 2 (3::real))
   \<and> 54 / 100 < 1 / 3 + 1 / (3 * log 2 (3::real))
   \<and> 1 / 3 + 1 / (3 * log 2 (3::real)) < 55 / 100"
proof -
  have code: "rND_fairness example_ranking example_counts ''B''
                = Inr (3 / 8 + 1 / (3 * log 2 3))"
    by (simp add: rND_fairness_def normalize_ranks_def intermediate_metric_def
        example_ranking_def example_counts_def ranked_def counts_get_def Let_def log2_4)
  have spec: "rND_spec example_ranking example_counts ''B'' = 1 / 3 + 1 / (3 * log 2 3)"
    by (simp add: rND_spec_def S_plus_in_def example_ranking_def example_counts_def
        ranked_def counts_get_def Let_def log2_4)
  from inverse_log2_3_bounds
  have "58 / 100 < 3 / 8 + 1 / (3 * log 2 (3::real))"
    and "54 / 100 < 1 / 3 + 1 / (3 * log 2 (3::real))"
    and "1 / 3 + 1 / (3 * log 2 (3::real)) < 55 / 100"
    by linarith+
  with code spec show ?thesis by simp
qed

lemma metrics_loop_nonneg:
  assumes "metrics_loop body ranks = Inr metrics"
    and "\<And>i v. body i = Inr v \<Longrightarrow> 0 \<le> v"
  shows "0 \<le> sum_list metrics"
  using assms
proof (induction ranks arbitrary: metrics)
  case Nil
  then show ?case by simp
next
  case (Cons i ranks)
  then show ?case
    by (auto split: sum.splits intro!: add_nonneg_nonneg)
qed

lemma intermediate_metric_nonneg:
  assumes "intermediate_metric ranking group_counts protected_group N i = Inr v"
  shows "0 \<le> v"
proof -
  from assms have i: "1 < i + 1"
    by (auto simp: intermediate_metric_def Let_def split: if_splits)
  then have "0 < log 2 (real_of_int (i + 1))" by simp
  with assms show ?thesis
    by (auto simp: intermediate_metric_def Let_def split: if_splits)
qed

lemma rND_fairness_nonneg:
  assumes "rND_fairness ranking group_counts protected_group = Inr v"
  shows "0 \<le> v"
  using assms metrics_loop_nonneg intermediate_metric_nonneg
  by (fastforce simp: rND_fairness_def Let_def split: sum.splits)

text \<open>
  Claim C3. Every score that the code returns is non-negative (lemma
  \<open>rND_fairness_nonneg\<close>). The second half fails on the code, from the same division
  by \<open>i + 1\<close> as in C1: for the single judged document \<open>d1\<close> of group \<open>B\<close>, ranked first,
  the share of \<open>B\<close> in the only prefix is \<open>1 / 1\<close> and equals its share \<open>1 / 1\<close> of the
  population, yet the code returns \<open>(1 / log2 2) * |1/2 - 1| = 1/2\<close>.
\<close>

theorem rND_matching_prefix_not_zero:
  "prefixes_match [ranked ''d1'' 1 ''B''] [(''B'', 1)] ''B''
   \<and> rND_fairness [ranked ''d1'' 1 ''B''] [(''B'', 1)] ''B'' = Inr (1 / 2)
   \<and> rND_spec [ranked ''d1'' 1 ''B''] [(''B'', 1)] ''B'' = 0"
proof -
  have "prefixes_match [ranked ''d1'' 1 ''B''] [(''B'', 1)] ''B''"
    by (simp add: prefixes_match_def S_plus_in_def ranked_def counts_get_def)
  moreover have "rND_fairness [ranked ''d1'' 1 ''B''] [(''B'', 1)] ''B'' = Inr (1 / 2)"
    by (simp add: rND_fairness_def normalize_ranks_def intermediate_metric_def
        ranked_def counts_get_def Let_def)
  moreover have "rND_spec [ranked ''d1'' 1 ''B''] [(''B'', 1)] ''B'' = 0"
    by (simp add: rND_spec_def S_plus_in_def ranked_def counts_get_def Let_def)
  ultimately show ?thesis by simp
qed

text \<open>
  Claim C4. Let the ranks of \<open>R\<close> be 1-based: every rank is at least 1 and, unless \<open>R\<close> is
  empty, rank 1 occurs. Let \<open>R0\<close> be \<open>R\<close> with every rank decreased by 1 and nothing else
  changed. Then the code gives \<open>R0\<close> and \<open>R\<close> the same result (the same score, or the
  same error), for all group counts and every protected group.
\<close>

theorem rND_zero_based_ranks:
  assumes "\<forall>d\<in>set R. 1 \<le> rank d"
    and "R \<noteq> [] \<longrightarrow> 1 \<in> set (map rank R)"
  shows "rND_fairness (map (\<lambda>d. d\<lparr>rank := rank d - 1\<rparr>) R) group_counts protected_group
           = rND_fairness R group_counts protected_group"
proof -
  let ?R0 = "map (\<lambda>d. d\<lparr>rank := rank d - 1\<rparr>) R"
  have same: "normalize_ranks R = R"
    using assms(1) by (auto simp: normalize_ranks_def)
  have "normalize_ranks ?R0 = R"
  proof (cases "R = []")
    case True
    then show ?thesis by (simp add: normalize_ranks_def)
  next
    case False
    with assms(2) obtain d where "d \<in> set R" "rank d = 1" by auto
    then have "0 \<in> set (map rank ?R0)" by (force simp: image_iff)
    then have "normalize_ranks ?R0 = map (\<lambda>d. d\<lparr>rank := rank d + 1\<rparr>) ?R0"
      by (simp add: normalize_ranks_def)
    also have "\<dots> = R" by (simp add: comp_def)
    finally show ?thesis .
  qed
  with same show ?thesis by (simp add: rND_fairness_def)
qed

theorem rND_zero_based_ranks_witness:
  "rND_fairness [ranked ''d1'' 0 ''A'', ranked ''d2'' 1 ''A'', ranked ''d3'' 2 ''B'']
       example_counts ''B''
     = rND_fairness example_ranking example_counts ''B''"
proof -
  have a: "\<forall>d\<in>set example_ranking. 1 \<le> rank d"
    by (simp add: example_ranking_def ranked_def)
  have b: "example_ranking \<noteq> [] \<longrightarrow> 1 \<in> set (map rank example_ranking)"
    by (simp add: example_ranking_def ranked_def)
  from rND_zero_based_ranks [OF a b, of example_counts "''B''"]
  show ?thesis by (simp add: example_ranking_def ranked_def)
qed

section \<open>Properties of the balanced reranker\<close>

text \<open>
  Claim C2 as stated fails: a swap need not reduce the imbalance by 2. For \<open>k = 2\<close> and
  the ranking pro A, pro A, pro A, pro B the loop is entered (the imbalance is 2), the
  first pro A document is moved behind the pro B document, the third document, again
  pro A, enters the window, and the imbalance is still 2.
\<close>

theorem balance_swap_keeps_imbalance:
  "1 < imbalance 2 [pro_a_doc ''d1'', pro_a_doc ''d2'', pro_a_doc ''d3'', pro_b_doc ''d4'']
   \<and> balance_step 2 [pro_a_doc ''d1'', pro_a_doc ''d2'', pro_a_doc ''d3'', pro_b_doc ''d4'']
       = Some [pro_a_doc ''d2'', pro_a_doc ''d3'', pro_b_doc ''d4'', pro_a_doc ''d1'']
   \<and> imbalance 2 [pro_a_doc ''d2'', pro_a_doc ''d3'', pro_b_doc ''d4'', pro_a_doc ''d1'']
       = imbalance 2 [pro_a_doc ''d1'', pro_a_doc ''d2'', pro_a_doc ''d3'', pro_b_doc ''d4'']"
  by code_simp

text \<open>
  Claim C2, amended. Every iteration of the loop that performs a swap keeps the multiset
  of documents and never increases the imbalance of the window. The document at position
  \<open>k\<close>, the first behind the window, enters the window: the imbalance drops by 2 exactly
  when that document is of the under-represented polarity, stays the same exactly when
  it is of the over-represented polarity, and drops by 1 otherwise (a neutral document or
  one without stance value).
\<close>

theorem balance_swap_effect:
  assumes "1 < imbalance k ranking" and "balance_step k ranking = Some ranking'"
  shows "mset ranking' = mset ranking
     \<and> imbalance k ranking' \<le> imbalance k ranking
     \<and> imbalance k ranking'
         = imbalance k ranking
             - (if under_represented k ranking (ranking ! k) then 2
                else if over_represented k ranking (ranking ! k) then 0 else 1)"
proof (cases "0 < count_pro_a k ranking - count_pro_b k ranking")
  case True
  with assms(1) have d: "1 < count_pro_a k ranking - count_pro_b k ranking"
    by (simp add: imbalance_def)
  have "\<not> (gt0 v \<and> lt0 v)" for v using gt0_not_lt0 by blast
  with difference_after_swap_pro_a(1,3) [OF True assms(2)] d True show ?thesis
    by (auto simp: imbalance_def under_represented_def over_represented_def)
next
  case False
  with assms(1) have d: "count_pro_a k ranking - count_pro_b k ranking < - 1"
    by (simp add: imbalance_def)
  then have neg: "count_pro_a k ranking - count_pro_b k ranking < 0" by simp
  have "\<not> (gt0 v \<and> lt0 v)" for v using gt0_not_lt0 by blast
  with difference_after_swap_pro_b(1,3) [OF neg assms(2)] d False show ?thesis
    by (auto simp: imbalance_def under_represented_def over_represented_def)
qed

theorem balance_swap_effect_witness:
  "1 < imbalance 2 [pro_a_doc ''d1'', pro_a_doc ''d2'', pro_b_doc ''d3'', pro_b_doc ''d4'']
   \<and> balance_step 2 [pro_a_doc ''d1'', pro_a_doc ''d2'', pro_b_doc ''d3'', pro_b_doc ''d4'']
       = Some [pro_a_doc ''d2'', pro_b_doc ''d3'', pro_a_doc ''d1'', pro_b_doc ''d4'']
   \<and> mset [pro_a_doc ''d2'', pro_b_doc ''d3'', pro_a_doc ''d1'', pro_b_doc ''d4'']
       = mset [pro_a_doc ''d1'', pro_a_doc ''d2'', pro_b_doc ''d3'', pro_b_doc ''d4'']
   \<and> imbalance 2 [pro_a_doc ''d2'', pro_b_doc ''d3'', pro_a_doc ''d1'', pro_b_doc ''d4'']
       = imbalance 2 [pro_a_doc ''d1'', pro_a_doc ''d2'', pro_b_doc ''d3'', pro_b_doc ''d4''] - 2"
proof -
  let ?r = "[pro_a_doc ''d1'', pro_a_doc ''d2'', pro_b_doc ''d3'', pro_b_doc ''d4'']"
  let ?r' = "[pro_a_doc ''d2'', pro_b_doc ''d3'', pro_a_doc ''d1'', pro_b_doc ''d4'']"
  have a: "1 < imbalance 2 ?r" by code_simp
  have b: "balance_step 2 ?r = Some ?r'" by code_simp
  have u: "under_represented 2 ?r (?r ! 2)" by code_simp
  from balance_swap_effect [OF a b] u a b show ?thesis by simp
qed

text \<open>
  Claim C8. With \<open>k = 0\<close> the window is empty, the loop is not entered, and the result
  is the input with only the score column rewritten: the same documents in the same
  order, every other field unchanged, and the scores \<open>n, n - 1, ..., 1\<close>, strictly
  descending. (The \<open>rank\<close> column is recomputed from the scores by \<open>add_ranks\<close> of
  PyTerrier, outside \<open>_transform_query\<close>.)
\<close>

theorem balanced_k0_rewrites_only_scores:
  "BalancedStanceReranker_transform_query 0 ranking = Inr (reset_score ranking)
   \<and> map (\<lambda>d. d\<lparr>score := 0\<rparr>) (reset_score ranking) = map (\<lambda>d. d\<lparr>score := 0\<rparr>) ranking
   \<and> map score (reset_score ranking) = arange_down (length ranking)
   \<and> sorted_wrt (\<lambda>x y. y < x) (map score (reset_score ranking))"
proof -
  have loop: "balance_loop 0 ranking = reset_score ranking"
    by (subst balance_loop.simps) (simp add: count_pro_a_def count_pro_b_def)
  have a: "BalancedStanceReranker_transform_query 0 ranking = Inr (reset_score ranking)"
    by (simp add: BalancedStanceReranker_transform_query_def loop)
  have b: "map (\<lambda>d. d\<lparr>score := 0\<rparr>) (reset_score ranking) = map (\<lambda>d. d\<lparr>score := 0\<rparr>) ranking"
    by (rule nth_equalityI) (simp_all add: length_reset_score nth_reset_score)
  have c: "map score (reset_score ranking) = arange_down (length ranking)"
    by (rule nth_equalityI)
      (simp_all add: length_reset_score nth_reset_score arange_down_def)
  from a b c sorted_arange_down [of "length ranking"] show ?thesis by simp
qed

section \<open>Properties of the protected group selection\<close>

lemma sort_key_tie:
  fixes f :: "'a \<Rightarrow> int"
  assumes "x1 \<in> set xs" "x2 \<in> set xs" "x1 \<noteq> x2" "f x1 = m" "f x2 = m"
    and low: "\<forall>x\<in>set xs. m \<le> f x"
  shows "1 < length (sort_key f xs) \<and> f (sort_key f xs ! 0) = m \<and> f (sort_key f xs ! 1) = m"
proof -
  let ?ys = "sort_key f xs"
  have set_ys: "set ?ys = set xs" by simp
  from assms(1) set_ys obtain i where i: "i < length ?ys" "?ys ! i = x1"
    by (metis in_set_conv_nth)
  from assms(2) set_ys obtain j where j: "j < length ?ys" "?ys ! j = x2"
    by (metis in_set_conv_nth)
  from i j assms(3) have ij: "i \<noteq> j" by auto
  define p where "p = max i j"
  have p: "p < length ?ys" "1 \<le> p" "f (?ys ! p) = m"
    using i j ij assms(4,5) by (auto simp: p_def max_def)
  have len: "1 < length ?ys" using p by simp
  have srt: "sorted (map f ?ys)" by (rule sorted_sort_key)
  have mono: "f (?ys ! a) \<le> f (?ys ! b)" if "a \<le> b" "b < length ?ys" for a b
    using sorted_nth_mono [OF srt, of a b] that by simp
  have ge: "m \<le> f (?ys ! a)" if "a < length ?ys" for a
    using low set_ys that by (metis nth_mem)
  have "f (?ys ! 1) \<le> m" using mono [of 1 p] p by simp
  moreover have "m \<le> f (?ys ! 1)" using ge [of 1] len by simp
  moreover have "f (?ys ! 0) \<le> f (?ys ! 1)" using mono [of 0 1] len by simp
  moreover have "m \<le> f (?ys ! 0)" using len by (intro ge) linarith
  ultimately show ?thesis using len by simp
qed

lemma sort_key_unique_min:
  fixes f :: "'a \<Rightarrow> int"
  assumes "distinct xs" "x0 \<in> set xs"
    and strict: "\<forall>x\<in>set xs. x \<noteq> x0 \<longrightarrow> f x0 < f x"
  shows "sort_key f xs ! 0 = x0 \<and> sort_key f xs \<noteq> [] \<and> (1 < length (sort_key f xs) \<longrightarrow> f x0 < f (sort_key f xs ! 1))"
proof -
  let ?ys = "sort_key f xs"
  have set_ys: "set ?ys = set xs" by simp
  have dist: "distinct ?ys" using assms(1) by simp
  from assms(2) set_ys obtain i where i: "i < length ?ys" "?ys ! i = x0"
    by (metis in_set_conv_nth)
  have ne: "?ys \<noteq> []" using assms(2) set_ys by (metis empty_iff empty_set)
  have srt: "sorted (map f ?ys)" by (rule sorted_sort_key)
  have mono: "f (?ys ! a) \<le> f (?ys ! b)" if "a \<le> b" "b < length ?ys" for a b
    using sorted_nth_mono [OF srt, of a b] that by simp
  have "f (?ys ! 0) \<le> f x0" using mono [of 0 i] i by simp
  moreover have "?ys ! 0 \<in> set xs" using ne set_ys by (metis length_greater_0_conv nth_mem)
  ultimately have h0: "?ys ! 0 = x0" using strict by fastforce
  have "f x0 < f (?ys ! 1)" if "1 < length ?ys"
  proof -
    have "?ys ! 1 \<noteq> ?ys ! 0"
    proof -
      have "0 < length ?ys" using that by linarith
      with that show ?thesis using nth_eq_iff_index_eq [OF dist, of 1 0] by simp
    qed
    moreover have "?ys ! 1 \<in> set xs" using that set_ys by (metis nth_mem)
    ultimately show ?thesis using strict h0 by auto
  qed
  with h0 ne show ?thesis by simp
qed

lemma tie_groups_stable:
  "filter (\<lambda>group. snd group = (c::int)) (sort_key snd xs) = filter (\<lambda>group. snd group = c) xs"
  by (rule sort_key_stable)

lemma tie_groups_stable_rev:
  "filter (\<lambda>group. snd group = (c::int)) (sort_key (\<lambda>item. - snd item) xs) = filter (\<lambda>group. snd group = c) xs"
  using sort_key_stable [of "\<lambda>item. - snd item" "- c" xs] by simp

text \<open>
  Claim C5. Let the group counts be a dictionary (its keys are distinct). If two
  different groups share the smallest count (MINORITY) or the largest count (MAJORITY),
  which is when the two groups at the top of the sorted list have the same count, and no
  tie breaking is configured, the selection fails with the \<open>ValueError\<close> whose message
  carries the tied groups, in dictionary order, and their shared count. If one group has
  a count strictly below every other, MINORITY returns that group whatever the tie
  breaking parameter and the random draw are: tie breaking is not consulted.
\<close>

theorem protected_group_tie_and_unique_minimum:
  fixes group_counts :: "('g::linorder \<times> int) list"
  assumes "distinct (map fst group_counts)"
  shows
    "((ga, m) \<in> set group_counts \<and> (gb, m) \<in> set group_counts \<and> ga \<noteq> gb
        \<and> (\<forall>item\<in>set group_counts. m \<le> snd item)
      \<longrightarrow> FairnessMeasure_protected_group (Strategy MINORITY) NoTieBreaking choice group_counts
            = Inl (ValueError (Tie MINORITY
                (map fst (filter (\<lambda>item. snd item = m) group_counts)) m)))
     \<and> ((ga, m) \<in> set group_counts \<and> (gb, m) \<in> set group_counts \<and> ga \<noteq> gb
        \<and> (\<forall>item\<in>set group_counts. snd item \<le> m)
      \<longrightarrow> FairnessMeasure_protected_group (Strategy MAJORITY) NoTieBreaking choice group_counts
            = Inl (ValueError (Tie MAJORITY
                (map fst (filter (\<lambda>item. snd item = m) group_counts)) m)))
     \<and> ((g, m) \<in> set group_counts
        \<and> (\<forall>item\<in>set group_counts. item \<noteq> (g, m) \<longrightarrow> m < snd item)
      \<longrightarrow> FairnessMeasure_protected_group (Strategy MINORITY) tie_breaking choice group_counts
            = Inr g)"
proof (intro conjI impI)
  assume a: "(ga, m) \<in> set group_counts \<and> (gb, m) \<in> set group_counts \<and> ga \<noteq> gb
        \<and> (\<forall>item\<in>set group_counts. m \<le> snd item)"
  then have "1 < length (sort_key snd group_counts) \<and> snd (sort_key snd group_counts ! 0) = m
      \<and> snd (sort_key snd group_counts ! 1) = m"
    by (intro sort_key_tie [of "(ga, m)" group_counts "(gb, m)"]) auto
  then show "FairnessMeasure_protected_group (Strategy MINORITY) NoTieBreaking choice group_counts
            = Inl (ValueError (Tie MINORITY
                (map fst (filter (\<lambda>item. snd item = m) group_counts)) m))"
    by (simp add: FairnessMeasure_protected_group_def Let_def tie_groups_stable)
next
  assume a: "(ga, m) \<in> set group_counts \<and> (gb, m) \<in> set group_counts \<and> ga \<noteq> gb
        \<and> (\<forall>item\<in>set group_counts. snd item \<le> m)"
  let ?f = "\<lambda>item :: 'g \<times> int. - snd item"
  from a have "1 < length (sort_key ?f group_counts) \<and> ?f (sort_key ?f group_counts ! 0) = - m
      \<and> ?f (sort_key ?f group_counts ! 1) = - m"
    by (intro sort_key_tie [of "(ga, m)" group_counts "(gb, m)"]) auto
  then show "FairnessMeasure_protected_group (Strategy MAJORITY) NoTieBreaking choice group_counts
            = Inl (ValueError (Tie MAJORITY
                (map fst (filter (\<lambda>item. snd item = m) group_counts)) m))"
    by (simp add: FairnessMeasure_protected_group_def Let_def tie_groups_stable_rev)
next
  assume a: "(g, m) \<in> set group_counts
        \<and> (\<forall>item\<in>set group_counts. item \<noteq> (g, m) \<longrightarrow> m < snd item)"
  have d: "distinct group_counts" using assms by (simp add: distinct_map)
  let ?ys = "sort_key snd group_counts"
  from a d have u: "?ys ! 0 = (g, m) \<and> ?ys \<noteq> [] \<and> (1 < length ?ys \<longrightarrow> snd (g, m) < snd (?ys ! 1))"
    by (intro sort_key_unique_min) auto
  then obtain y ys where ys: "?ys = y # ys" by (cases ?ys) auto
  with u have y: "y = (g, m)" by simp
  from u have "\<not> (1 < length ?ys \<and> snd (?ys ! 0) = snd (?ys ! 1))" by auto
  then show "FairnessMeasure_protected_group (Strategy MINORITY) tie_breaking choice group_counts
            = Inr g"
    using ys y by (auto simp add: FairnessMeasure_protected_group_def Let_def)
qed

theorem protected_group_tie_and_unique_minimum_witness:
  "FairnessMeasure_protected_group (Strategy MINORITY) NoTieBreaking 0
       [(1::nat, 2), (2, 2), (3, 5)] = Inl (ValueError (Tie MINORITY [1, 2] 2))
   \<and> FairnessMeasure_protected_group (Strategy MAJORITY) NoTieBreaking 0
       [(1::nat, 1), (2, 4), (3, 4)] = Inl (ValueError (Tie MAJORITY [2, 3] 4))
   \<and> FairnessMeasure_protected_group (Strategy MINORITY) (TieStrategy GROUP_DESCENDING) 0
       [(1::nat, 2), (2, 1), (3, 2)] = Inr 2"
proof -
  have d1: "distinct (map fst [(1::nat, 2::int), (2, 2), (3, 5)])" by simp
  have d2: "distinct (map fst [(1::nat, 1::int), (2, 4), (3, 4)])" by simp
  have d3: "distinct (map fst [(1::nat, 2::int), (2, 1), (3, 2)])" by simp
  note t1 = protected_group_tie_and_unique_minimum [OF d1, where ga = 1 and gb = 2 and m = 2 and choice = 0 and g = 3 and tie_breaking = NoTieBreaking]
  note t2 = protected_group_tie_and_unique_minimum [OF d2, where ga = 2 and gb = 3 and m = 4 and choice = 0 and g = 1 and tie_breaking = NoTieBreaking]
  note t3 = protected_group_tie_and_unique_minimum [OF d3, where ga = 1 and gb = 3 and m = 1 and choice = 0 and g = 2 and tie_breaking = "TieStrategy GROUP_DESCENDING"]
  from t1 have "FairnessMeasure_protected_group (Strategy MINORITY) NoTieBreaking 0
       [(1::nat, 2), (2, 2), (3, 5)] = Inl (ValueError (Tie MINORITY [1, 2] 2))" by simp
  moreover from t2 have "FairnessMeasure_protected_group (Strategy MAJORITY) NoTieBreaking 0
       [(1::nat, 1), (2, 4), (3, 4)] = Inl (ValueError (Tie MAJORITY [2, 3] 4))" by simp
  moreover from t3 have "FairnessMeasure_protected_group (Strategy MINORITY) (TieStrategy GROUP_DESCENDING) 0
       [(1::nat, 2), (2, 1), (3, 2)] = Inr 2" by simp
  ultimately show ?thesis by simp
qed

section \<open>Properties of the alternating reranker\<close>

lemma alternating_loop_empty: "alternating_loop [] last_stance new_rows = new_rows"
  by (simp add: alternating_loop.simps)

lemma alternating_loop_no_candidate:
  assumes "ranking \<noteq> []" "candidates_of last_stance ranking = []"
  shows "alternating_loop ranking last_stance new_rows = alternating_loop ranking None new_rows"
  using assms by (subst alternating_loop.simps) simp

lemma alternating_loop_pick:
  assumes "ranking \<noteq> []" "candidates_of last_stance ranking = document # rest"
  shows "alternating_loop ranking last_stance new_rows
           = alternating_loop (remove1 document ranking) (stance_value document)
               (new_rows @ [document])"
  using assms by (subst alternating_loop.simps) simp

lemma alternating_loop_append:
  "alternating_loop ranking last_stance new_rows
     = new_rows @ alternating_loop ranking last_stance []"
proof (induction "2 * length ranking + (if gt0 last_stance \<or> lt0 last_stance then 1 else 0 :: nat)"
    arbitrary: ranking last_stance new_rows rule: less_induct)
  case less
  show ?case
  proof (cases "ranking = []")
    case True
    then show ?thesis by (simp add: alternating_loop_empty)
  next
    case False
    show ?thesis
    proof (cases "candidates_of last_stance ranking")
      case Nil
      from candidates_of_empty_directed [OF False Nil]
      have "2 * length ranking + (if gt0 None \<or> lt0 None then 1 else 0 :: nat)
              < 2 * length ranking + (if gt0 last_stance \<or> lt0 last_stance then 1 else 0)"
        by (simp add: gt0_def lt0_def)
      from less [OF this]
      have "alternating_loop ranking None new_rows = new_rows @ alternating_loop ranking None []" .
      then show ?thesis
        by (simp add: alternating_loop_no_candidate [OF False Nil])
    next
      case (Cons document rest)
      then have "document \<in> set ranking" using candidates_of_subset [of last_stance ranking] by auto
      then have "length (remove1 document ranking) < length ranking"
        using length_pos_if_in_set [of document ranking] by (simp add: length_remove1)
      then have m: "2 * length (remove1 document ranking)
                 + (if gt0 (stance_value document) \<or> lt0 (stance_value document) then 1 else 0 :: nat)
              < 2 * length ranking + (if gt0 last_stance \<or> lt0 last_stance then 1 else 0)"
        by simp
      have "alternating_loop ranking last_stance new_rows
              = (new_rows @ [document])
                @ alternating_loop (remove1 document ranking) (stance_value document) []"
        using less [OF m, of "new_rows @ [document]"]
        by (simp add: alternating_loop_pick [OF False Cons])
      moreover have "alternating_loop ranking last_stance []
              = [document] @ alternating_loop (remove1 document ranking) (stance_value document) []"
        using less [OF m, of "[document]"]
        by (simp add: alternating_loop_pick [OF False Cons])
      ultimately show ?thesis by simp
    qed
  qed
qed

lemma alternating_loop_mset:
  "mset (alternating_loop ranking last_stance new_rows) = mset new_rows + mset ranking"
proof (induction "2 * length ranking + (if gt0 last_stance \<or> lt0 last_stance then 1 else 0 :: nat)"
    arbitrary: ranking last_stance new_rows rule: less_induct)
  case less
  show ?case
  proof (cases "ranking = []")
    case True
    then show ?thesis by (simp add: alternating_loop_empty)
  next
    case False
    show ?thesis
    proof (cases "candidates_of last_stance ranking")
      case Nil
      from candidates_of_empty_directed [OF False Nil]
      have "2 * length ranking + (if gt0 None \<or> lt0 None then 1 else 0 :: nat)
              < 2 * length ranking + (if gt0 last_stance \<or> lt0 last_stance then 1 else 0)"
        by (simp add: gt0_def lt0_def)
      from less [OF this, of new_rows] show ?thesis
        by (simp add: alternating_loop_no_candidate [OF False Nil])
    next
      case (Cons document rest)
      then have mem: "document \<in> set ranking"
        using candidates_of_subset [of last_stance ranking] by auto
      then have "length (remove1 document ranking) < length ranking"
        using length_pos_if_in_set [of document ranking] by (simp add: length_remove1)
      then have m: "2 * length (remove1 document ranking)
                 + (if gt0 (stance_value document) \<or> lt0 (stance_value document) then 1 else 0 :: nat)
              < 2 * length ranking + (if gt0 last_stance \<or> lt0 last_stance then 1 else 0)"
        by simp
      from less [OF m, of "new_rows @ [document]"] mem show ?thesis
        by (simp add: alternating_loop_pick [OF False Cons])
    qed
  qed
qed

lemma alternates_index:
  assumes "alternates last_stance vs" "Suc j < length vs"
  shows "(gt0 (vs ! j) \<and> gt0 (vs ! Suc j) \<longrightarrow> (\<forall>c\<in>set (drop (Suc j) vs). \<not> le0 c))
         \<and> (lt0 (vs ! j) \<and> lt0 (vs ! Suc j) \<longrightarrow> (\<forall>c\<in>set (drop (Suc j) vs). \<not> ge0 c))"
  using assms
proof (induction vs arbitrary: j last_stance)
  case Nil
  then show ?case by simp
next
  case (Cons v vs)
  show ?case
  proof (cases j)
    case 0
    with Cons.prems obtain e es where es: "vs = e # es" by (cases vs) auto
    with Cons.prems 0 show ?thesis by auto
  next
    case (Suc k)
    with Cons.prems have "alternates v vs" "Suc k < length vs" by auto
    from Cons.IH [OF this] Suc show ?thesis by simp
  qed
qed

lemma alternates_weaken:
  assumes "alternates None vs"
    and "gt0 last_stance \<Longrightarrow> \<forall>c\<in>set vs. \<not> le0 c"
    and "lt0 last_stance \<Longrightarrow> \<forall>c\<in>set vs. \<not> ge0 c"
  shows "alternates last_stance vs"
  using assms by (cases vs) auto

lemma alternating_loop_alternates:
  "alternates last_stance (map stance_value (alternating_loop ranking last_stance []))"
proof (induction "2 * length ranking + (if gt0 last_stance \<or> lt0 last_stance then 1 else 0 :: nat)"
    arbitrary: ranking last_stance rule: less_induct)
  case less
  show ?case
  proof (cases "ranking = []")
    case True
    then show ?thesis by (simp add: alternating_loop_empty)
  next
    case False
    show ?thesis
    proof (cases "candidates_of last_stance ranking")
      case Nil
      from candidates_of_empty_directed [OF False Nil]
      have "2 * length ranking + (if gt0 None \<or> lt0 None then 1 else 0 :: nat)
              < 2 * length ranking + (if gt0 last_stance \<or> lt0 last_stance then 1 else 0)"
        by (simp add: gt0_def lt0_def)
      from less [OF this]
      have a: "alternates None (map stance_value (alternating_loop ranking None []))" .
      have "mset (alternating_loop ranking None []) = mset ranking"
        by (simp add: alternating_loop_mset)
      then have s: "set (alternating_loop ranking None []) = set ranking"
        by (rule mset_eq_setD)
      have g: "\<forall>c\<in>set ranking. \<not> le0 (stance_value c)" if "gt0 last_stance"
        using Nil that by (simp add: candidates_of_def filter_empty_conv)
      have l: "\<forall>c\<in>set ranking. \<not> ge0 (stance_value c)" if "lt0 last_stance"
      proof -
        from that have "\<not> gt0 last_stance" by (simp add: gt0_def lt0_def split: option.splits)
        with Nil that show ?thesis by (simp add: candidates_of_def filter_empty_conv)
      qed
      have "alternates last_stance (map stance_value (alternating_loop ranking None []))"
      proof (rule alternates_weaken [OF a])
        assume "gt0 last_stance"
        from g [OF this]
        show "\<forall>c\<in>set (map stance_value (alternating_loop ranking None [])). \<not> le0 c"
          by (simp add: s)
      next
        assume "lt0 last_stance"
        from l [OF this]
        show "\<forall>c\<in>set (map stance_value (alternating_loop ranking None [])). \<not> ge0 c"
          by (simp add: s)
      qed
      then show ?thesis
        by (simp add: alternating_loop_no_candidate [OF False Nil])
    next
      case (Cons document rest)
      then have mem: "document \<in> set ranking"
        using candidates_of_subset [of last_stance ranking] by auto
      then have "length (remove1 document ranking) < length ranking"
        using length_pos_if_in_set [of document ranking] by (simp add: length_remove1)
      then have m: "2 * length (remove1 document ranking)
                 + (if gt0 (stance_value document) \<or> lt0 (stance_value document) then 1 else 0 :: nat)
              < 2 * length ranking + (if gt0 last_stance \<or> lt0 last_stance then 1 else 0)"
        by simp
      have out: "alternating_loop ranking last_stance []
              = document # alternating_loop (remove1 document ranking) (stance_value document) []"
        using alternating_loop_append [of "remove1 document ranking" "stance_value document" "[document]"]
        by (simp add: alternating_loop_pick [OF False Cons])
      have ih: "alternates (stance_value document)
                  (map stance_value
                    (alternating_loop (remove1 document ranking) (stance_value document) []))"
        using less [OF m] .
      have c: "document \<in> set (candidates_of last_stance ranking)" using Cons by simp
      have g: "\<not> (gt0 last_stance \<and> gt0 (stance_value document))"
      proof
        assume h: "gt0 last_stance \<and> gt0 (stance_value document)"
        with c have "le0 (stance_value document)" by (simp add: candidates_of_def)
        with h show False by (simp add: gt0_def le0_def split: option.splits)
      qed
      have l: "\<not> (lt0 last_stance \<and> lt0 (stance_value document))"
      proof
        assume h: "lt0 last_stance \<and> lt0 (stance_value document)"
        then have "\<not> gt0 last_stance" by (simp add: gt0_def lt0_def split: option.splits)
        with h c have "ge0 (stance_value document)" by (simp add: candidates_of_def)
        with h show False by (simp add: lt0_def ge0_def split: option.splits)
      qed
      from ih g l show ?thesis unfolding out by auto
    qed
  qed
qed

lemma length_alternating_transform_query:
  "length (AlternatingStanceReranker_transform_query ranking) = length ranking"
proof -
  have "mset (alternating_loop ranking None []) = mset ranking"
    by (simp add: alternating_loop_mset)
  then have "length (alternating_loop ranking None []) = length ranking"
    by (rule mset_eq_length)
  then show ?thesis
    by (simp add: AlternatingStanceReranker_transform_query_def length_reset_score)
qed

text \<open>
  Claim C6. In the output of the alternating reranker, let the documents at the positions
  \<open>j\<close> and \<open>j + 1\<close> both have a positive stance value. The documents at the positions
  from \<open>j + 1\<close> on are those that were still in the pool when the document at \<open>j + 1\<close> was
  selected (the loop moves one document at a time from the pool to the end of the
  output). None of them has a stance value \<open>\<le> 0\<close>: no candidate of the opposite sign and
  no neutral one was left. The same holds for two negative neighbours and stance values
  \<open>\<ge> 0\<close>.
\<close>

theorem alternating_same_sign_only_without_alternative:
  assumes "Suc j < length (AlternatingStanceReranker_transform_query ranking)"
  shows "(gt0 (stance_value (AlternatingStanceReranker_transform_query ranking ! j))
          \<and> gt0 (stance_value (AlternatingStanceReranker_transform_query ranking ! Suc j))
          \<longrightarrow> (\<forall>c\<in>set (drop (Suc j) (AlternatingStanceReranker_transform_query ranking)).
                 \<not> le0 (stance_value c)))
       \<and> (lt0 (stance_value (AlternatingStanceReranker_transform_query ranking ! j))
          \<and> lt0 (stance_value (AlternatingStanceReranker_transform_query ranking ! Suc j))
          \<longrightarrow> (\<forall>c\<in>set (drop (Suc j) (AlternatingStanceReranker_transform_query ranking)).
                 \<not> ge0 (stance_value c)))"
proof -
  let ?out = "AlternatingStanceReranker_transform_query ranking"
  have "map stance_value ?out = map stance_value (alternating_loop ranking None [])"
    by (simp add: AlternatingStanceReranker_transform_query_def stance_value_reset_score)
  then have a: "alternates None (map stance_value ?out)"
    by (simp add: alternating_loop_alternates)
  from assms have len: "Suc j < length (map stance_value ?out)" by simp
  from assms have j: "j < length ?out" by simp
  from alternates_index [OF a len] assms j show ?thesis
    by (simp add: drop_map)
qed

theorem alternating_same_sign_only_without_alternative_witness:
  "Suc 2 < length (AlternatingStanceReranker_transform_query
       [stanced ''d1'' 9 (Some 1) None, stanced ''d2'' 8 (Some 2) None,
        stanced ''d3'' 7 (Some (- 1)) None, stanced ''d4'' 6 (Some 3) None])
   \<and> gt0 (stance_value (AlternatingStanceReranker_transform_query
       [stanced ''d1'' 9 (Some 1) None, stanced ''d2'' 8 (Some 2) None,
        stanced ''d3'' 7 (Some (- 1)) None, stanced ''d4'' 6 (Some 3) None] ! 2))
   \<and> gt0 (stance_value (AlternatingStanceReranker_transform_query
       [stanced ''d1'' 9 (Some 1) None, stanced ''d2'' 8 (Some 2) None,
        stanced ''d3'' 7 (Some (- 1)) None, stanced ''d4'' 6 (Some 3) None] ! Suc 2))
   \<and> list_all (\<lambda>c. \<not> le0 (stance_value c))
        (drop (Suc 2) (AlternatingStanceReranker_transform_query
          [stanced ''d1'' 9 (Some 1) None, stanced ''d2'' 8 (Some 2) None,
           stanced ''d3'' 7 (Some (- 1)) None, stanced ''d4'' 6 (Some 3) None]))"
proof -
  let ?r = "[stanced ''d1'' 9 (Some 1) None, stanced ''d2'' 8 (Some 2) None,
        stanced ''d3'' 7 (Some (- 1)) None, stanced ''d4'' 6 (Some 3) None]"
  have len: "Suc 2 < length (AlternatingStanceReranker_transform_query ?r)"
    by (simp add: length_alternating_transform_query)
  have pos: "gt0 (stance_value (AlternatingStanceReranker_transform_query ?r ! 2))
      \<and> gt0 (stance_value (AlternatingStanceReranker_transform_query ?r ! Suc 2))"
    by code_simp
  from alternating_same_sign_only_without_alternative [OF len] pos len
  show ?thesis unfolding list_all_iff by blast
qed

section \<open>Properties of the boost minority reranker\<close>

lemma boost_minority_always_raises:
  "BoostMinorityStanceReranker_rerank_query self_boost ranking = Inl TypeError"
  by (simp add: BoostMinorityStanceReranker_rerank_query_def sorted_key_def
      dict_get_keyword_default_def Let_def)

text \<open>
  Claim C7, at the example of the specification with boost 2. The code never returns a
  ranking: the key function of \<open>sorted\<close> calls \<open>dict.get\<close> with a keyword argument, which
  raises \<open>TypeError\<close> on every input (lemma \<open>boost_minority_always_raises\<close>), so no score
  is multiplied. For comparison, the rule that the claim states picks NEUTRAL at this
  example, the label with 0 occurrences among the four canonical ones, and leaves all
  four scores as they are.
\<close>

theorem boost_minority_example_raises:
  "BoostMinorityStanceReranker_rerank_query 2 boost_example = Inl TypeError
   \<and> minority_label_spec boost_example = ''NEUTRAL''
   \<and> map score (boost_minority_spec 2 boost_example) = [4, 3, 2, 1]"
proof -
  have "minority_label_spec boost_example = ''NEUTRAL''" by code_simp
  moreover have "map score (boost_minority_spec 2 boost_example) = [4, 3, 2, 1]" by code_simp
  ultimately show ?thesis by (simp add: boost_minority_always_raises)
qed

section \<open>Properties of the group counts\<close>




section \<open>Properties of the inverse stance gain reranker\<close>

text \<open>
  The division of \<open>_normalize_scores\<close> is by zero exactly when all scores of a non-empty
  ranking are equal: then every normalized score is NaN, and otherwise every one is a
  real number.
\<close>

lemma column_min_Min: "xs \<noteq> [] \<Longrightarrow> column_min xs = Min (set xs)"
  by (cases xs) (simp_all add: column_min_def Min.set_eq_fold [symmetric])

lemma column_max_Max: "xs \<noteq> [] \<Longrightarrow> column_max xs = Max (set xs)"
  by (cases xs) (simp_all add: column_max_def Max.set_eq_fold [symmetric])


lemma normalize_scores_not_all_equal:
  assumes "d \<in> set ranking" "e \<in> set ranking" "score d < score e"
  shows "normalize_scores ranking inplace
           = map (\<lambda>x. Some ((score x - column_min (map score ranking))
                    / (column_max (map score ranking) - column_min (map score ranking)))) ranking"
    and "column_min (map score ranking) < column_max (map score ranking)"
proof -
  from assms(1) have ne: "map score ranking \<noteq> []" by auto
  have "Min (set (map score ranking)) \<le> score d" using assms(1) by (intro Min_le) auto
  moreover have "score e \<le> Max (set (map score ranking))" using assms(2) by (intro Max_ge) auto
  ultimately show lt: "column_min (map score ranking) < column_max (map score ranking)"
    using assms(3) column_min_Min [OF ne] column_max_Max [OF ne] by simp
  then show "normalize_scores ranking inplace
           = map (\<lambda>x. Some ((score x - column_min (map score ranking))
                    / (column_max (map score ranking) - column_min (map score ranking)))) ranking"
    by (simp add: normalize_scores_def float_div_def Let_def)
qed


end
